theory Spec2Isabelle
  imports Complex_Main "HOL-Library.Sublist" "HOL-Library.Multiset"
begin

section \<open>XFeat inference module (modules/xfeat.py)\<close>

text \<open>
  Tensors of floats are modelled over the reals: a descriptor is a \<open>real list\<close>, a
  descriptor set \<open>[N, D]\<close> is a list of \<open>N\<close> rows.  Index tensors hold natural numbers.
  Every place where torch raises is a branch of the model returning an \<open>error\<close>.
\<close>

type_synonym vec = "real list"
type_synonym mat = "real list list"

datatype error = RuntimeError | IndexError | ZeroDivisionError | TypeError | ValueError

subsection \<open>Tensor primitives used by the matcher\<close>

definition dot :: "vec \<Rightarrow> vec \<Rightarrow> real" where
  "dot a b = sum_list (map2 (*) a b)"

text \<open>\<open>A @ B.t()\<close> for \<open>A :: [N, D]\<close> and \<open>B :: [M, D]\<close>: entry \<open>(i, k)\<close> is \<open>dot (A ! i) (B ! k)\<close>.\<close>

definition matmul_t :: "mat \<Rightarrow> mat \<Rightarrow> mat" where
  "matmul_t A B = map (\<lambda>a. map (dot a) B) A"

text \<open>The inner dimensions of a matrix product have to agree, otherwise torch raises.\<close>

definition inner_ok :: "mat \<Rightarrow> mat \<Rightarrow> bool" where
  "inner_ok A B = list_all (\<lambda>a. list_all (\<lambda>b. length a = length b) B) A"

text \<open>
  \<open>t.max(dim)\<close> of one row: the maximal value together with the index of its first
  occurrence (\<open>torch.argmax\<close> is the second component).  The reduction over an empty
  row raises in torch; callers check for it before reducing.
\<close>

fun max_idx :: "real list \<Rightarrow> real \<times> nat" where
  "max_idx [] = (0, 0)"
| "max_idx [x] = (x, 0)"
| "max_idx (x # y # ys) =
     (let (m, i) = max_idx (y # ys) in if m \<le> x then (x, 0) else (m, Suc i))"

definition argmax :: "real list \<Rightarrow> nat" where
  "argmax xs = snd (max_idx xs)"

definition row_max :: "real list \<Rightarrow> real" where
  "row_max xs = fst (max_idx xs)"

text \<open>Boolean-mask indexing \<open>xs[mask]\<close>: the entries at which the mask holds, in order.\<close>

definition masked :: "'a list \<Rightarrow> bool list \<Rightarrow> 'a list" where
  "masked xs msk = map fst (filter snd (zip xs msk))"

subsection \<open>\<open>XFeat.match\<close>\<close>

definition match :: "mat \<Rightarrow> mat \<Rightarrow> real \<Rightarrow> error + (nat list \<times> nat list)" where
  "match feats1 feats2 min_cossim =
     (if \<not> inner_ok feats1 feats2 then Inl RuntimeError
      else if feats1 = [] \<or> feats2 = [] then Inl IndexError
      else
        let cossim = matmul_t feats1 feats2;
            cossim_t = matmul_t feats2 feats1;
            match12 = map argmax cossim;
            match21 = map argmax cossim_t;
            idx0 = [0..<length match12];
            mutual = map (\<lambda>i. match21 ! (match12 ! i) = i) idx0
        in if min_cossim > 0 then
             let cossim' = map row_max cossim;
                 good = map (\<lambda>c. c > min_cossim) cossim';
                 both = map2 (\<and>) mutual good
             in Inr (masked idx0 both, masked match12 both)
           else Inr (masked idx0 mutual, masked match12 mutual))"

text \<open>The default of the keyword argument: \<open>def match(self, feats1, feats2, min_cossim = 0.95)\<close>.\<close>

definition match_default_min_cossim :: real where
  "match_default_min_cossim = 0.95"

definition match_call :: "mat \<Rightarrow> mat \<Rightarrow> real option \<Rightarrow> error + (nat list \<times> nat list)" where
  "match_call feats1 feats2 min_cossim =
     match feats1 feats2 (case min_cossim of None \<Rightarrow> match_default_min_cossim | Some c \<Rightarrow> c)"

subsection \<open>\<open>XFeat.batch_match\<close>\<close>

text \<open>
  \<open>feats1 :: [B, N, D]\<close>, \<open>feats2 :: [B, M, D]\<close>.  \<open>torch.bmm\<close> raises when the batch sizes
  or the inner dimensions differ; \<open>torch.argmax\<close> raises on an empty reduction.
  \<open>mutual.nonzero()\<close> and \<open>indices[mutual]\<close> enumerate the true entries batch by batch.
\<close>

definition batch_mutual :: "mat \<Rightarrow> mat \<Rightarrow> real \<Rightarrow> nat list \<times> bool list" where
  "batch_mutual f1 f2 min_cossim =
     (let cossim = matmul_t f1 f2;
          match12 = map argmax cossim;
          match21 = map argmax (transpose cossim);
          indices = [0..<length match12];
          mutual = map (\<lambda>i. match21 ! (match12 ! i) = i) indices
      in if min_cossim > 0 then
           let cossim_max = map row_max cossim;
               good = map (\<lambda>c. c > min_cossim) cossim_max
           in (match12, map2 (\<and>) mutual good)
         else (match12, mutual))"

definition batch_match ::
  "mat list \<Rightarrow> mat list \<Rightarrow> real \<Rightarrow> error + ((nat \<times> nat) list \<times> (nat \<times> nat) list)" where
  "batch_match feats1 feats2 min_cossim =
     (if length feats1 \<noteq> length feats2 \<or> \<not> list_all2 inner_ok feats1 feats2
      then Inl RuntimeError
      else if list_ex (\<lambda>f. f = []) feats1 \<or> list_ex (\<lambda>f. f = []) feats2 then Inl IndexError
      else
        let per_batch = map2 (\<lambda>f1 f2. batch_mutual f1 f2 min_cossim) feats1 feats2;
            B = length per_batch;
            idx0_b = concat (map (\<lambda>b. map (Pair b)
                       (masked [0..<length (fst (per_batch ! b))] (snd (per_batch ! b)))) [0..<B]);
            idx1_b = concat (map (\<lambda>b. map (Pair b)
                       (masked (fst (per_batch ! b)) (snd (per_batch ! b)))) [0..<B])
        in Inr (idx0_b, idx1_b))"

text \<open>
  The matcher in the words of the specification: the nearest neighbour of row \<open>i\<close> of
  \<open>A\<close> among the rows of \<open>B\<close>, the mutual pairs, and the pairs that also pass the
  similarity threshold when the threshold is positive.
\<close>

definition nn12 :: "mat \<Rightarrow> mat \<Rightarrow> nat \<Rightarrow> nat" where
  "nn12 A B i = argmax (map (dot (A ! i)) B)"

definition reciprocal :: "mat \<Rightarrow> mat \<Rightarrow> nat \<Rightarrow> nat \<Rightarrow> bool" where
  "reciprocal descA descB i j \<longleftrightarrow>
     i < length descA \<and> j < length descB \<and>
     argmax (map (dot (descA ! i)) descB) = j \<and>
     argmax (map (dot (descB ! j)) descA) = i"

definition mutual_pairs :: "mat \<Rightarrow> mat \<Rightarrow> (nat \<times> nat) list" where
  "mutual_pairs A B =
     filter (\<lambda>(i, j). nn12 B A j = i) (map (\<lambda>i. (i, nn12 A B i)) [0..<length A])"

definition mnn_pairs :: "mat \<Rightarrow> mat \<Rightarrow> real \<Rightarrow> (nat \<times> nat) list" where
  "mnn_pairs A B min_cossim =
     (if min_cossim > 0
      then filter (\<lambda>(i, j). dot (A ! i) (B ! j) > min_cossim) (mutual_pairs A B)
      else mutual_pairs A B)"

definition keep :: "mat \<Rightarrow> mat \<Rightarrow> real \<Rightarrow> nat \<Rightarrow> bool" where
  "keep A B mc i \<longleftrightarrow>
     nn12 B A (nn12 A B i) = i \<and> (mc \<le> 0 \<or> dot (A ! i) (B ! nn12 A B i) > mc)"

definition batch_ok :: "mat list \<Rightarrow> mat list \<Rightarrow> bool" where
  "batch_ok F1 F2 \<longleftrightarrow> length F1 = length F2 \<and> list_all2 inner_ok F1 F2 \<and>
      \<not> list_ex (\<lambda>f. f = []) F1 \<and> \<not> list_ex (\<lambda>f. f = []) F2"

text \<open>Descriptor sets used to exercise the matcher.\<close>

definition exA :: mat where
  "exA = [[1, 0], [3/5, 4/5]]"

definition exB :: mat where
  "exB = [[0, 1], [1, 0], [1/2, 1/2]]"

subsection \<open>\<open>XFeat.refine_matches\<close> and \<open>XFeat.subpix_softmax2d\<close>\<close>

text \<open>Sequencing of computations that may raise.\<close>

definition bind :: "error + 'a \<Rightarrow> ('a \<Rightarrow> error + 'b) \<Rightarrow> error + 'b" where
  "bind m f = (case m of Inl e \<Rightarrow> Inl e | Inr x \<Rightarrow> f x)"
















subsection \<open>Tensors with an index function\<close>

text \<open>
  A dense tensor is its shape and the value at every index list; only indices inside
  the shape are meaningful.  \<open>ravel\<close> and \<open>unravel\<close> convert between an index list and
  the row-major offset, which is what \<open>reshape\<close> of a contiguous tensor preserves;
  \<open>permute\<close> reorders the axes.
\<close>

record tensor =
  shape :: "nat list"
  elem :: "nat list \<Rightarrow> real"

fun ravel :: "nat list \<Rightarrow> nat list \<Rightarrow> nat" where
  "ravel (d # ds) (i # is) = i * prod_list ds + ravel ds is"
| "ravel _ _ = 0"

fun unravel :: "nat list \<Rightarrow> nat \<Rightarrow> nat list" where
  "unravel [] k = []"
| "unravel (d # ds) k = (k div prod_list ds) # unravel ds (k mod prod_list ds)"

definition position :: "nat \<Rightarrow> nat list \<Rightarrow> nat" where
  "position a dims = length (takeWhile (\<lambda>d. d \<noteq> a) dims)"

definition permute :: "nat list \<Rightarrow> tensor \<Rightarrow> tensor" where
  "permute dims t =
     \<lparr>shape = map (\<lambda>d. shape t ! d) dims,
      elem = (\<lambda>idx. elem t (map (\<lambda>a. idx ! position a dims) [0..<length dims]))\<rparr>"

definition reshape :: "nat list \<Rightarrow> tensor \<Rightarrow> error + tensor" where
  "reshape new t =
     (if prod_list new \<noteq> prod_list (shape t) then Inl RuntimeError
      else Inr \<lparr>shape = new, elem = (\<lambda>idx. elem t (unravel (shape t) (ravel new idx)))\<rparr>)"

definition softmax_dim1 :: "tensor \<Rightarrow> tensor" where
  "softmax_dim1 t =
     \<lparr>shape = shape t,
      elem = (\<lambda>idx. exp (elem t idx) /
                (\<Sum>c\<leftarrow>[0..<shape t ! 1]. exp (elem t (idx[1 := c]))))\<rparr>"

definition scale :: "real \<Rightarrow> tensor \<Rightarrow> tensor" where
  "scale a t = \<lparr>shape = shape t, elem = (\<lambda>idx. elem t idx * a)\<rparr>"

definition narrow_dim1 :: "nat \<Rightarrow> tensor \<Rightarrow> tensor" where
  "narrow_dim1 n t = \<lparr>shape = (shape t)[1 := min n (shape t ! 1)], elem = elem t\<rparr>"

subsection \<open>\<open>XFeat.get_kpts_heatmap\<close>\<close>

text \<open>
  \<open>F.softmax(kpts * softmax_temp, 1)[:, :64]\<close>, then the two permute and reshape steps.
  \<open>softmax\<close> over axis 1 needs two axes, the unpacking of \<open>scores.shape\<close> needs four,
  and \<open>reshape\<close> raises when the element counts differ.
\<close>

definition get_kpts_heatmap :: "tensor \<Rightarrow> real \<Rightarrow> error + tensor" where
  "get_kpts_heatmap kpts softmax_temp =
     (if length (shape kpts) < 2 then Inl IndexError
      else
        let scores = narrow_dim1 64 (softmax_dim1 (scale softmax_temp kpts)) in
        case shape scores of
          [B, _, H, W] \<Rightarrow>
            bind (reshape [B, H, W, 8, 8] (permute [0, 2, 3, 1] scores)) (\<lambda>heatmap.
            reshape [B, 1, H * 8, W * 8] (permute [0, 1, 3, 2, 4] heatmap))
        | _ \<Rightarrow> Inl ValueError)"

text \<open>
  The heatmap as a closed term for a logit map of shape \<open>[B, 64, H, W]\<close>, the softmax
  weight of channel \<open>c\<close> in coarse cell \<open>(i, j)\<close> in the words of the specification, and a
  logit map with one coarse cell whose channel 9 dominates.
\<close>

definition heat_of :: "tensor \<Rightarrow> real \<Rightarrow> nat \<Rightarrow> nat \<Rightarrow> nat \<Rightarrow> tensor" where
  "heat_of kpts temp B H W =
     (let scores = narrow_dim1 64 (softmax_dim1 (scale temp kpts));
          P1 = permute [0, 2, 3, 1] scores;
          r1 = \<lparr>shape = [B, H, W, 8, 8],
                elem = (\<lambda>idx. elem P1 (unravel [B, H, W, 64] (ravel [B, H, W, 8, 8] idx)))\<rparr>;
          P2 = permute [0, 1, 3, 2, 4] r1
      in \<lparr>shape = [B, 1, H * 8, W * 8],
          elem = (\<lambda>idx. elem P2 (unravel [B, H, 8, W, 8] (ravel [B, 1, H * 8, W * 8] idx)))\<rparr>)"

definition cell_softmax :: "tensor \<Rightarrow> nat \<Rightarrow> nat \<Rightarrow> nat \<Rightarrow> nat \<Rightarrow> real" where
  "cell_softmax kpts b i j c =
     exp (elem kpts [b, c, i, j]) / (\<Sum>c'<64. exp (elem kpts [b, c', i, j]))"

definition exK :: tensor where
  "exK = \<lparr>shape = [1, 64, 1, 1], elem = (\<lambda>idx. if idx ! 1 = 9 then ln 64 else 0)\<rparr>"

subsection \<open>\<open>XFeat.detectAndCompute\<close>, \<open>XFeat.preprocess_tensor\<close> and \<open>XFeat.NMS\<close>\<close>

text \<open>
  An \<open>XFeat\<close> instance.  The backbone (\<open>modules/model.py\<close>), \<open>F.interpolate\<close> and the
  sparse samplers \<open>InterpolateSparse2d\<close> (\<open>modules/interpolator.py\<close>) are not part of
  \<open>xfeat.py\<close>: they are fields of the instance.  \<open>net\<close> returns the descriptor map, the
  keypoint logits and the reliability map; \<open>nearest\<close>, \<open>bilinear\<close> and \<open>bicubic\<close> give the
  value a map takes at keypoint \<open>(x, y)\<close> of batch entry \<open>b\<close> for a canvas of \<open>H \<times> W\<close> pixels.
  \<open>top_k\<close> is the attribute stored by \<open>__init__(self, weights, top_k = 4096)\<close>.
\<close>

record xfeat =
  top_k :: int
  net :: "tensor \<Rightarrow> tensor \<times> tensor \<times> tensor"
  interpolate :: "tensor \<Rightarrow> nat \<times> nat \<Rightarrow> tensor"
  nearest :: "tensor \<Rightarrow> nat \<Rightarrow> nat \<times> nat \<Rightarrow> nat \<Rightarrow> nat \<Rightarrow> real"
  bilinear :: "tensor \<Rightarrow> nat \<Rightarrow> nat \<times> nat \<Rightarrow> nat \<Rightarrow> nat \<Rightarrow> real"
  bicubic :: "tensor \<Rightarrow> nat \<Rightarrow> nat \<times> nat \<Rightarrow> nat \<Rightarrow> nat \<Rightarrow> vec"

text \<open>One entry of the returned list: \<open>'keypoints'\<close> holds the rows \<open>(x, y, score)\<close> of \<open>pts\<close>,
  \<open>'descriptors'\<close> the rows of \<open>feats\<close>.\<close>

record sparse_out =
  pts :: "(real \<times> real \<times> real) list"
  feats :: "vec list"

definition XFeat_init :: "xfeat \<Rightarrow> int option \<Rightarrow> xfeat" where
  "XFeat_init collaborators top_k_arg =
     collaborators\<lparr>top_k := (case top_k_arg of None \<Rightarrow> 4096 | Some k \<Rightarrow> k)\<rparr>"

text \<open>
  \<open>H, W = x.shape[-2:]\<close> needs two axes; \<open>H / _H\<close> divides by zero when a side is shorter
  than 32 pixels.
\<close>

definition preprocess_tensor :: "xfeat \<Rightarrow> tensor \<Rightarrow> error + (tensor \<times> real \<times> real)" where
  "preprocess_tensor self x =
     (if length (shape x) < 2 then Inl ValueError
      else
        let H = shape x ! (length (shape x) - 2);
            W = shape x ! (length (shape x) - 1);
            H' = (H div 32) * 32;
            W' = (W div 32) * 32
        in if H' = 0 \<or> W' = 0 then Inl ZeroDivisionError
           else Inr (interpolate self x (H', W'), real H / real H', real W / real W'))"

text \<open>
  \<open>nn.MaxPool2d(kernel_size, stride = 1, padding = kernel_size // 2)\<close>: the maximum over the
  part of the window inside the map.  For an even kernel size the pooled map is one
  pixel larger and the comparison with \<open>x\<close> raises.  \<open>k.nonzero()[..., 1:].flip(-1)\<close> lists
  the positions in row-major order as \<open>(x, y)\<close>; shorter lists are padded with \<open>(0, 0)\<close>;
  \<open>max\<close> of an empty list of lengths raises.
\<close>

definition window :: "nat \<Rightarrow> nat \<Rightarrow> nat \<Rightarrow> nat list" where
  "window pad n r = [r - pad ..< min n (r + pad + 1)]"

definition max_pool2d :: "nat \<Rightarrow> tensor \<Rightarrow> nat \<Rightarrow> nat \<Rightarrow> nat \<Rightarrow> nat \<Rightarrow> real" where
  "max_pool2d pad x b c r col =
     (let H = shape x ! 2; W = shape x ! 3
      in row_max (concat (map (\<lambda>r'. map (\<lambda>c'. elem x [b, c, r', c']) (window pad W col))
                            (window pad H r))))"

definition nonzero_xy :: "nat \<Rightarrow> nat \<Rightarrow> nat \<Rightarrow> (nat \<Rightarrow> nat \<Rightarrow> nat \<Rightarrow> bool) \<Rightarrow> (nat \<times> nat) list" where
  "nonzero_xy C H W pos =
     concat (map (\<lambda>c. concat (map (\<lambda>r. map (\<lambda>col. (col, r)) (filter (\<lambda>col. pos c r col) [0..<W]))
                                  [0..<H])) [0..<C])"

definition pad_to :: "nat \<Rightarrow> (nat \<times> nat) list \<Rightarrow> (nat \<times> nat) list" where
  "pad_to n ps = ps @ replicate (n - length ps) (0, 0)"

definition NMS :: "tensor \<Rightarrow> real \<Rightarrow> nat \<Rightarrow> error + (nat \<times> nat) list list" where
  "NMS x threshold kernel_size =
     (case shape x of
        [B, C, H, W] \<Rightarrow>
          if even kernel_size then Inl RuntimeError
          else
            let pad = kernel_size div 2;
                pos = (\<lambda>b c r col. elem x [b, c, r, col] = max_pool2d pad x b c r col
                                    \<and> elem x [b, c, r, col] > threshold);
                pos_batched = map (\<lambda>b. nonzero_xy C H W (pos b)) [0..<B]
            in if pos_batched = [] then Inl ValueError
               else
                 let pad_val = foldr max (map length pos_batched) 0
                 in Inr (map (pad_to pad_val) pos_batched)
      | _ \<Rightarrow> Inl ValueError)"

text \<open>\<open>F.normalize\<close> along the channel axis of a map and along a descriptor.\<close>

definition normalize_dim1 :: "tensor \<Rightarrow> tensor" where
  "normalize_dim1 t =
     \<lparr>shape = shape t,
      elem = (\<lambda>idx. elem t idx /
                max (sqrt (\<Sum>c\<leftarrow>[0..<shape t ! 1]. (elem t (idx[1 := c]))\<^sup>2)) (1 / 10 ^ 12))\<rparr>"

definition l2_normalize :: "vec \<Rightarrow> vec" where
  "l2_normalize v = map (\<lambda>a. a / max (sqrt (\<Sum>b\<leftarrow>v. b\<^sup>2)) (1 / 10 ^ 12)) v"

text \<open>
  The Python slice \<open>xs[:k]\<close>, the scores of the candidates of one image
  (\<open>scores[torch.all(mkpts == 0, dim=-1)] = -1\<close>), \<open>torch.argsort(-scores)\<close> (entries with
  equal scores keep their order here; torch leaves their order open) and the gathered
  and truncated keypoints with their scores.
\<close>

definition py_prefix :: "int \<Rightarrow> 'a list \<Rightarrow> 'a list" where
  "py_prefix k xs = (if 0 \<le> k then take (nat k) xs else take (length xs - nat (- k)) xs)"

definition candidate_scores ::
  "xfeat \<Rightarrow> tensor \<Rightarrow> tensor \<Rightarrow> nat \<Rightarrow> nat \<Rightarrow> nat \<Rightarrow> (nat \<times> nat) list \<Rightarrow> real list" where
  "candidate_scores self K1h H1 H W b kps =
     map (\<lambda>kp. if kp = (0, 0) then - 1
               else nearest self K1h b kp H W * bilinear self H1 b kp H W) kps"

definition argsort_desc :: "real list \<Rightarrow> nat list" where
  "argsort_desc scores = sort_key (\<lambda>i. - (scores ! i)) [0..<length scores]"

definition top_candidates :: "int \<Rightarrow> (nat \<times> nat) list \<Rightarrow> real list \<Rightarrow> ((nat \<times> nat) \<times> real) list" where
  "top_candidates k kps scores =
     (let idxs = argsort_desc scores
      in zip (py_prefix k (map (\<lambda>i. kps ! i) idxs)) (py_prefix k (map (\<lambda>i. scores ! i) idxs)))"

text \<open>The part of \<open>detectAndCompute\<close> that works on batch entry \<open>b\<close>, and the whole method.\<close>

definition detect_image ::
  "xfeat \<Rightarrow> tensor \<Rightarrow> tensor \<Rightarrow> tensor \<Rightarrow> nat \<Rightarrow> nat \<Rightarrow> real \<Rightarrow> real \<Rightarrow> nat \<Rightarrow> (nat \<times> nat) list
     \<Rightarrow> sparse_out" where
  "detect_image self M1 K1h H1 H W rh1 rw1 b kps =
     (let scores = candidate_scores self K1h H1 H W b kps;
          sel = top_candidates (top_k self) kps scores;
          descs = map (\<lambda>(kp, s). l2_normalize (bicubic self M1 b kp H W)) sel;
          mkpts = map (\<lambda>((x, y), s). (real x * rw1, real y * rh1, s)) sel;
          valid = map (\<lambda>(kp, s). s > 0) sel
      in \<lparr>pts = masked mkpts valid, feats = masked descs valid\<rparr>)"

definition detectAndCompute :: "xfeat \<Rightarrow> tensor \<Rightarrow> error + sparse_out list" where
  "detectAndCompute self x =
     bind (preprocess_tensor self x) (\<lambda>(x', rh1, rw1).
       case shape x' of
         [B, C, H, W] \<Rightarrow>
           (let (M1, K1, H1) = net self x';
                M1' = normalize_dim1 M1
            in bind (get_kpts_heatmap K1 1) (\<lambda>K1h.
               bind (NMS K1h (5 / 100) 5) (\<lambda>mkpts.
                 if length mkpts < B then Inl IndexError
                 else Inr (map (\<lambda>b. detect_image self M1' K1h H1 H W rh1 rw1 b (mkpts ! b))
                             [0..<B]))))
       | _ \<Rightarrow> Inl ValueError)"


text \<open>
  A batch of two images of \<open>40 \<times> 48\<close> pixels and an instance whose backbone answers with
  logits that peak in one channel of a few coarse cells (\<open>exPeak\<close>), a reliability map and
  a two-channel descriptor map; the samplers read the map at the pixel, or at the coarse
  cell of the pixel.  \<open>exHeat\<close> is the heatmap of these logits.
\<close>

definition exPeak :: "nat \<Rightarrow> nat \<Rightarrow> nat \<Rightarrow> nat option" where
  "exPeak b i j =
     (if b = 0 then
        (if (i, j) = (0, 0) then Some 0
         else if (i, j) = (0, 1) then Some 9
         else if (i, j) = (1, 2) then Some 20
         else if (i, j) = (3, 0) then Some 29
         else None)
      else if (i, j) = (0, 1) then Some 28 else None)"

definition exK1 :: tensor where
  "exK1 = \<lparr>shape = [2, 64, 4, 4],
           elem = (\<lambda>idx. if exPeak (idx ! 0) (idx ! 2) (idx ! 3) = Some (idx ! 1) then ln 64 else 0)\<rparr>"

definition exH1 :: tensor where
  "exH1 = \<lparr>shape = [2, 1, 4, 4],
           elem = (\<lambda>idx. if idx ! 0 = 0 \<and> (idx ! 2, idx ! 3) = (0, 1) then 1 / 2
                         else if idx ! 0 = 0 \<and> (idx ! 2, idx ! 3) = (3, 0) then 0
                         else 1)\<rparr>"

definition exM1 :: tensor where
  "exM1 = \<lparr>shape = [2, 2, 4, 4], elem = (\<lambda>idx. if even (idx ! 3 + idx ! 1) then 3 else 4)\<rparr>"

definition exParts :: xfeat where
  "exParts =
     \<lparr>top_k = 0,
      net = (\<lambda>t. (exM1, exK1, exH1)),
      interpolate = (\<lambda>t (h, w). \<lparr>shape = [shape t ! 0, shape t ! 1, h, w], elem = elem t\<rparr>),
      nearest = (\<lambda>t b (x, y) H W. elem t [b, 0, y, x]),
      bilinear = (\<lambda>t b (x, y) H W. elem t [b, 0, y div 8, x div 8]),
      bicubic = (\<lambda>t b (x, y) H W. [elem t [b, 0, y div 8, x div 8], elem t [b, 1, y div 8, x div 8]])\<rparr>"

definition exImg :: tensor where
  "exImg = \<lparr>shape = [2, 1, 40, 48], elem = (\<lambda>idx. 0)\<rparr>"

definition exHeat :: tensor where
  "exHeat = heat_of exK1 1 2 4 4"

section \<open>Properties\<close>

subsection \<open>Maximum and arg-max\<close>

lemma max_idx_bound: "xs \<noteq> [] \<Longrightarrow> snd (max_idx xs) < length xs"
  by (induction xs rule: max_idx.induct) (auto split: prod.splits)

lemma max_idx_nth: "xs \<noteq> [] \<Longrightarrow> xs ! snd (max_idx xs) = fst (max_idx xs)"
  by (induction xs rule: max_idx.induct) (auto split: prod.splits)

lemma max_idx_ge: "x \<in> set xs \<Longrightarrow> x \<le> fst (max_idx xs)"
  by (induction xs rule: max_idx.induct) (auto split: prod.splits)

lemma max_idx_first: "k < snd (max_idx xs) \<Longrightarrow> xs ! k < fst (max_idx xs)"
proof (induction xs arbitrary: k rule: max_idx.induct)
  case (3 x y ys)
  obtain m i where mi: "max_idx (y # ys) = (m, i)" by (cases "max_idx (y # ys)")
  show ?case
  proof (cases "m \<le> x")
    case True
    with mi 3(2) show ?thesis by simp
  next
    case False
    with mi 3(2) have k: "k < Suc i" by simp
    show ?thesis
    proof (cases k)
      case 0
      with False mi show ?thesis by simp
    next
      case (Suc k')
      with k have "k' < snd (max_idx (y # ys))" using mi by simp
      from 3(1)[OF this] Suc False mi show ?thesis by simp
    qed
  qed
qed simp_all

lemma argmax_bound: "xs \<noteq> [] \<Longrightarrow> argmax xs < length xs"
  by (simp add: argmax_def max_idx_bound)

lemma argmax_is_max: "k < length xs \<Longrightarrow> xs ! k \<le> xs ! argmax xs"
proof -
  assume k: "k < length xs"
  then have ne: "xs \<noteq> []" by auto
  from k have "xs ! k \<in> set xs" by simp
  then have "xs ! k \<le> fst (max_idx xs)" by (rule max_idx_ge)
  with ne show ?thesis by (simp add: argmax_def max_idx_nth)
qed

lemma row_max_argmax: "xs \<noteq> [] \<Longrightarrow> row_max xs = xs ! argmax xs"
  by (simp add: argmax_def row_max_def max_idx_nth)

subsection \<open>The matcher computes the mutual nearest neighbours\<close>

lemma masked_map: "masked (map f l) (map p l) = map f (filter p l)"
  by (induction l) (auto simp: masked_def)

lemma masked_upt: "masked [0..<n] (map p [0..<n]) = filter p [0..<n]"
  using masked_map[of id "[0..<n]" p] by simp

lemma nn12_bound: "B \<noteq> [] \<Longrightarrow> nn12 A B i < length B"
  using argmax_bound[of "map (dot (A ! i)) B"] by (simp add: nn12_def)

lemma match12_eq: "map argmax (matmul_t A B) = map (nn12 A B) [0..<length A]"
  by (rule nth_equalityI) (simp_all add: matmul_t_def nn12_def)

lemma mnn_pairs_alt:
  "mnn_pairs A B mc = map (\<lambda>i. (i, nn12 A B i)) (filter (keep A B mc) [0..<length A])"
  by (auto simp: mnn_pairs_def mutual_pairs_def filter_map comp_def keep_def[abs_def]
           intro!: arg_cong[where f="map _"] filter_cong)

lemma row_max_matmul:
  assumes "B \<noteq> []"
  shows "map row_max (matmul_t A B) = map (\<lambda>i. dot (A ! i) (B ! nn12 A B i)) [0..<length A]"
proof (intro nth_equalityI)
  fix i assume "i < length (map row_max (matmul_t A B))"
  then have i: "i < length A" by (simp add: matmul_t_def)
  have "nn12 A B i < length B" using assms by (simp add: nn12_bound)
  then have "map (dot (A ! i)) B ! nn12 A B i = dot (A ! i) (B ! nn12 A B i)" by simp
  then show "map row_max (matmul_t A B) ! i
               = map (\<lambda>i. dot (A ! i) (B ! nn12 A B i)) [0..<length A] ! i"
    using i assms by (simp add: matmul_t_def row_max_argmax nn12_def)
qed (simp add: matmul_t_def)

lemma mutual_flags:
  assumes "A \<noteq> []" "B \<noteq> []"
  shows "map (\<lambda>i. map (nn12 B A) [0..<length B] ! (map (nn12 A B) [0..<length A] ! i) = i)
             [0..<length A]
           = map (\<lambda>i. nn12 B A (nn12 A B i) = i) [0..<length A]"
  using assms by (auto simp: nn12_bound)

lemma both_flags:
  "map2 (\<and>) (map p [0..<n]) (map (\<lambda>c. mc < c) (map d [0..<n]))
     = map (\<lambda>i. p i \<and> mc < d i) [0..<n]"
  by (intro nth_equalityI) simp_all

lemma match_char:
  assumes ok: "inner_ok feats1 feats2" and ne: "feats1 \<noteq> []" "feats2 \<noteq> []"
  shows "match feats1 feats2 mc =
           Inr (map fst (mnn_pairs feats1 feats2 mc), map snd (mnn_pairs feats1 feats2 mc))"
proof -
  have "match feats1 feats2 mc =
          Inr (filter (keep feats1 feats2 mc) [0..<length feats1],
               map (nn12 feats1 feats2) (filter (keep feats1 feats2 mc) [0..<length feats1]))"
  proof (cases "mc > 0")
    case True
    then show ?thesis using ok ne
      unfolding match_def Let_def match12_eq keep_def[abs_def]
      by (simp add: mutual_flags row_max_matmul both_flags masked_map masked_upt del: map_map)
  next
    case False
    then show ?thesis using ok ne
      unfolding match_def Let_def match12_eq keep_def[abs_def]
      by (simp add: mutual_flags masked_map masked_upt del: map_map)
  qed
  then show ?thesis by (simp add: mnn_pairs_alt comp_def)
qed

lemma dot_commute: "dot a b = dot b a"
  unfolding dot_def
proof (induction a arbitrary: b)
  case (Cons x xs)
  then show ?case by (cases b) (simp_all add: mult.commute)
qed simp

lemma transpose_matmul_t:
  assumes "A \<noteq> []"
  shows "transpose (matmul_t A B) = matmul_t B A"
proof -
  have "transpose (matmul_t A B) =
          map (\<lambda>i. map (\<lambda>j. matmul_t A B ! j ! i) [0..<length (matmul_t A B)]) [0..<length B]"
    using assms by (intro transpose_rectangle) (simp_all add: matmul_t_def)
  also have "\<dots> = matmul_t B A"
    by (intro nth_equalityI) (simp_all add: matmul_t_def dot_commute)
  finally show ?thesis .
qed

lemma batch_mutual_char:
  assumes ne: "A \<noteq> []" "B \<noteq> []"
  shows "batch_mutual A B mc = (map (nn12 A B) [0..<length A], map (keep A B mc) [0..<length A])"
proof (cases "mc > 0")
  case True
  then show ?thesis using ne
    unfolding batch_mutual_def Let_def transpose_matmul_t[OF ne(1)] match12_eq keep_def[abs_def]
    by (simp add: mutual_flags row_max_matmul both_flags del: map_map)
next
  case False
  then show ?thesis using ne
    unfolding batch_mutual_def Let_def transpose_matmul_t[OF ne(1)] match12_eq keep_def[abs_def]
    by (simp add: mutual_flags del: map_map)
qed

lemma batch_mutual_masked:
  assumes ne: "A \<noteq> []" "B \<noteq> []"
  shows "masked [0..<length (fst (batch_mutual A B mc))] (snd (batch_mutual A B mc))
           = map fst (mnn_pairs A B mc)"
    and "masked (fst (batch_mutual A B mc)) (snd (batch_mutual A B mc))
           = map snd (mnn_pairs A B mc)"
  by (simp_all add: batch_mutual_char[OF ne] masked_map masked_upt mnn_pairs_alt comp_def)

lemma batch_ok_nonempty:
  assumes "batch_ok F1 F2" "b < length F1"
  shows "F1 ! b \<noteq> []" "F2 ! b \<noteq> []"
proof -
  from assms have len: "length F1 = length F2" and n1: "[] \<notin> set F1" and n2: "[] \<notin> set F2"
    by (auto simp: batch_ok_def list_ex_iff)
  show "F1 ! b \<noteq> []" using n1 nth_mem[OF assms(2)] by metis
  show "F2 ! b \<noteq> []" using n2 nth_mem[of b F2] assms(2) len by metis
qed

lemma batch_match_char:
  assumes ok: "batch_ok F1 F2"
  shows "batch_match F1 F2 mc =
    Inr (concat (map (\<lambda>b. map (Pair b) (map fst (mnn_pairs (F1 ! b) (F2 ! b) mc))) [0..<length F1]),
         concat (map (\<lambda>b. map (Pair b) (map snd (mnn_pairs (F1 ! b) (F2 ! b) mc))) [0..<length F1]))"
proof -
  from ok have len: "length F1 = length F2" by (simp add: batch_ok_def)
  let ?pb = "map2 (\<lambda>f1 f2. batch_mutual f1 f2 mc) F1 F2"
  have lpb: "length ?pb = length F1" using len by simp
  have pb: "\<And>b. b < length F1 \<Longrightarrow> ?pb ! b = batch_mutual (F1 ! b) (F2 ! b) mc"
    using len by simp
  have e0: "map (\<lambda>b. map (Pair b) (masked [0..<length (fst (?pb ! b))] (snd (?pb ! b)))) [0..<length F1]
          = map (\<lambda>b. map (Pair b) (map fst (mnn_pairs (F1 ! b) (F2 ! b) mc))) [0..<length F1]"
    by (rule map_cong[OF refl])
       (simp add: pb batch_mutual_masked batch_ok_nonempty[OF ok] del: map_map)
  have e1: "map (\<lambda>b. map (Pair b) (masked (fst (?pb ! b)) (snd (?pb ! b)))) [0..<length F1]
          = map (\<lambda>b. map (Pair b) (map snd (mnn_pairs (F1 ! b) (F2 ! b) mc))) [0..<length F1]"
    by (rule map_cong[OF refl])
       (simp add: pb batch_mutual_masked batch_ok_nonempty[OF ok] del: map_map)
  have "batch_match F1 F2 mc =
      Inr (concat (map (\<lambda>b. map (Pair b)
                     (masked [0..<length (fst (?pb ! b))] (snd (?pb ! b)))) [0..<length F1]),
           concat (map (\<lambda>b. map (Pair b)
                     (masked (fst (?pb ! b)) (snd (?pb ! b)))) [0..<length F1]))"
    using ok unfolding batch_match_def Let_def lpb by (simp add: batch_ok_def)
  then show ?thesis unfolding e0 e1 .
qed

lemma mnn_pairs_reciprocal:
  assumes "B \<noteq> []" "(i, j) \<in> set (mnn_pairs A B mc)"
  shows "reciprocal A B i j"
proof -
  from assms(2) have i: "i < length A" and j: "j = nn12 A B i" and k: "keep A B mc i"
    by (auto simp: mnn_pairs_alt)
  from assms(1) j have "j < length B" by (simp add: nn12_bound)
  with i j k show ?thesis by (simp add: reciprocal_def keep_def nn12_def)
qed

lemma zip_concat_map:
  assumes "\<And>b. b \<in> set bs \<Longrightarrow> length (f b) = length (g b)"
  shows "zip (concat (map f bs)) (concat (map g bs)) = concat (map (\<lambda>b. zip (f b) (g b)) bs)"
  using assms by (induction bs) simp_all

lemma zip_fst_snd: "zip (map fst ps) (map snd ps) = ps"
  by (induction ps) auto

lemma zip_pair_map:
  "zip (map (Pair b) (map fst ps)) (map (Pair b) (map snd ps))
     = map (\<lambda>(i, j). ((b, i), (b, j))) ps"
  by (induction ps) auto

lemma batch_match_zip:
  assumes ok: "batch_ok F1 F2" and m: "batch_match F1 F2 mc = Inr (idx0_b, idx1_b)"
  shows "zip idx0_b idx1_b =
      concat (map (\<lambda>b. map (\<lambda>(i, j). ((b, i), (b, j))) (mnn_pairs (F1 ! b) (F2 ! b) mc))
                [0..<length F1])"
proof -
  let ?f = "\<lambda>b. map (Pair b) (map fst (mnn_pairs (F1 ! b) (F2 ! b) mc))"
  let ?g = "\<lambda>b. map (Pair b) (map snd (mnn_pairs (F1 ! b) (F2 ! b) mc))"
  from m have i0: "idx0_b = concat (map ?f [0..<length F1])"
    and i1: "idx1_b = concat (map ?g [0..<length F1])"
    unfolding batch_match_char[OF ok] by simp_all
  have "zip (concat (map ?f [0..<length F1])) (concat (map ?g [0..<length F1]))
          = concat (map (\<lambda>b. zip (?f b) (?g b)) [0..<length F1])"
    by (rule zip_concat_map) simp
  then show ?thesis unfolding i0 i1 zip_pair_map .
qed

lemma match_Inr_ok:
  "match feats1 feats2 mc = Inr r \<Longrightarrow> inner_ok feats1 feats2 \<and> feats1 \<noteq> [] \<and> feats2 \<noteq> []"
  by (auto simp: match_def split: if_splits)

lemma match_zip:
  assumes "match feats1 feats2 mc = Inr (idx0, idx1)"
  shows "zip idx0 idx1 = mnn_pairs feats1 feats2 mc"
proof -
  from match_Inr_ok[OF assms] have "inner_ok feats1 feats2" "feats1 \<noteq> []" "feats2 \<noteq> []"
    by simp_all
  from match_char[OF this] assms show ?thesis by (auto simp: zip_fst_snd)
qed

lemmas eval_defs =
  inner_ok_def matmul_t_def dot_def argmax_def row_max_def masked_def Let_def upt_conv_Cons

lemma match_exA_exB: "match exA exB (-1) = Inr ([0, 1], [1, 0])"
  by (simp add: match_def exA_def exB_def eval_defs)

lemma batch_match_exA_exB:
  "batch_match [exA] [exB] (-1) = Inr ([(0, 0), (0, 1)], [(0, 1), (0, 0)])"
  by (simp add: batch_match_def batch_mutual_def exA_def exB_def eval_defs)

subsection \<open>Reciprocity of the returned correspondences\<close>

text \<open>
  Claim C1.  Every correspondence \<open>(i, j)\<close> returned by \<open>match\<close> is reciprocal: \<open>j\<close> is
  the arg-max of row \<open>i\<close> of the cosine-similarity matrix and \<open>i\<close> is the arg-max of its
  column \<open>j\<close>, and the similarity of the pair is maximal in its row and in its column.
  Every correspondence \<open>((b, i), (b', j))\<close> returned by \<open>batch_match\<close> stays inside one
  batch element and is reciprocal there.
\<close>

theorem match_reciprocity:
  "(match feats1 feats2 mc = Inr (idx0, idx1) \<longrightarrow> (i, j) \<in> set (zip idx0 idx1) \<longrightarrow>
      reciprocal feats1 feats2 i j \<and>
      (\<forall>k < length feats2. dot (feats1 ! i) (feats2 ! k) \<le> dot (feats1 ! i) (feats2 ! j)) \<and>
      (\<forall>k < length feats1. dot (feats2 ! j) (feats1 ! k) \<le> dot (feats2 ! j) (feats1 ! i)))
   \<and>
   (batch_match F1 F2 mc' = Inr (idx0_b, idx1_b) \<longrightarrow>
      ((b, i'), (b', j')) \<in> set (zip idx0_b idx1_b) \<longrightarrow>
      b' = b \<and> b < length F1 \<and> reciprocal (F1 ! b) (F2 ! b) i' j')"
proof (intro conjI impI)
  assume m: "match feats1 feats2 mc = Inr (idx0, idx1)" and ij: "(i, j) \<in> set (zip idx0 idx1)"
  from match_Inr_ok[OF m] have ne: "feats2 \<noteq> []" by simp
  from ij have "(i, j) \<in> set (mnn_pairs feats1 feats2 mc)" by (simp add: match_zip[OF m])
  then have r: "reciprocal feats1 feats2 i j" using ne by (simp add: mnn_pairs_reciprocal)
  then show "reciprocal feats1 feats2 i j" .
  from r have i: "i < length feats1" and j: "j < length feats2"
    and a1: "argmax (map (dot (feats1 ! i)) feats2) = j"
    and a2: "argmax (map (dot (feats2 ! j)) feats1) = i"
    by (simp_all add: reciprocal_def)
  show "\<forall>k<length feats2. dot (feats1 ! i) (feats2 ! k) \<le> dot (feats1 ! i) (feats2 ! j)"
  proof (intro allI impI)
    fix k assume k: "k < length feats2"
    with argmax_is_max[of k "map (dot (feats1 ! i)) feats2"] a1 j
    show "dot (feats1 ! i) (feats2 ! k) \<le> dot (feats1 ! i) (feats2 ! j)" by simp
  qed
  show "\<forall>k<length feats1. dot (feats2 ! j) (feats1 ! k) \<le> dot (feats2 ! j) (feats1 ! i)"
  proof (intro allI impI)
    fix k assume k: "k < length feats1"
    with argmax_is_max[of k "map (dot (feats2 ! j)) feats1"] a2 i
    show "dot (feats2 ! j) (feats1 ! k) \<le> dot (feats2 ! j) (feats1 ! i)" by simp
  qed
next
  assume m: "batch_match F1 F2 mc' = Inr (idx0_b, idx1_b)"
    and ij: "((b, i'), (b', j')) \<in> set (zip idx0_b idx1_b)"
  from m have ok: "batch_ok F1 F2"
    by (auto simp: batch_match_def batch_ok_def split: if_splits)
  note z = batch_match_zip[OF ok m]
  from ij[unfolded z] have b: "b' = b" "b < length F1"
    and p: "(i', j') \<in> set (mnn_pairs (F1 ! b) (F2 ! b) mc')"
    by auto
  from batch_ok_nonempty[OF ok b(2)] have "F2 ! b \<noteq> []" by simp
  with p have "reciprocal (F1 ! b) (F2 ! b) i' j'" by (simp add: mnn_pairs_reciprocal)
  with b show "b' = b" "b < length F1" "reciprocal (F1 ! b) (F2 ! b) i' j'" by simp_all
qed

theorem match_reciprocity_witness:
  "match exA exB (-1) = Inr ([0, 1], [1, 0]) \<and> (1, 0) \<in> set (zip [0, 1::nat] [1, 0::nat]) \<and>
   reciprocal exA exB 1 0 \<and>
   dot (exA ! 1) (exB ! 2) \<le> dot (exA ! 1) (exB ! 0) \<and>
   batch_match [exA] [exB] (-1) = Inr ([(0, 0), (0, 1)], [(0, 1), (0, 0)]) \<and>
   ((0, 1), (0, 0)) \<in> set (zip [(0::nat, 0::nat), (0, 1)] [(0::nat, 1::nat), (0, 0)]) \<and>
   reciprocal ([exA] ! 0) ([exB] ! 0) 1 0"
  using match_reciprocity[of exA exB "-1" "[0, 1]" "[1, 0]" 1 0 "[exA]" "[exB]" "-1"
          "[(0, 0), (0, 1)]" "[(0, 1), (0, 0)]" 0 1 0 0]
        match_exA_exB batch_match_exA_exB
  by (simp add: exA_def exB_def dot_def)

lemma match_exA_exB_high: "match exA exB (19/20) = Inr ([0], [1])"
  by (simp add: match_def exA_def exB_def eval_defs)

subsection \<open>Threshold monotonicity\<close>

text \<open>
  Claim C2.  For a fixed pair of descriptor sets, raising \<open>min_cossim\<close> from \<open>lo\<close> to
  \<open>hi\<close> keeps \<open>match\<close> returning, and the correspondences returned for \<open>hi\<close> are a
  subsequence, hence a subset, of those returned for \<open>lo\<close>; their number does not grow.
\<close>

theorem threshold_monotone:
  assumes le: "lo \<le> hi" and m: "match feats1 feats2 lo = Inr (a0, a1)"
  shows "\<exists>b0 b1. match feats1 feats2 hi = Inr (b0, b1) \<and>
           subseq (zip b0 b1) (zip a0 a1) \<and>
           set (zip b0 b1) \<subseteq> set (zip a0 a1) \<and>
           length b0 \<le> length a0 \<and> length b1 \<le> length a1"
proof -
  from match_Inr_ok[OF m] have ok: "inner_ok feats1 feats2" "feats1 \<noteq> []" "feats2 \<noteq> []"
    by simp_all
  let ?lo = "mnn_pairs feats1 feats2 lo" and ?hi = "mnn_pairs feats1 feats2 hi"
  have hi: "match feats1 feats2 hi = Inr (map fst ?hi, map snd ?hi)" by (rule match_char[OF ok])
  from m match_char[OF ok, of lo] have a: "a0 = map fst ?lo" "a1 = map snd ?lo" by simp_all
  have imp: "keep feats1 feats2 hi i \<Longrightarrow> keep feats1 feats2 lo i" for i
    using le by (auto simp: keep_def)
  have "filter (keep feats1 feats2 hi) [0..<length feats1]
          = filter (keep feats1 feats2 hi) (filter (keep feats1 feats2 lo) [0..<length feats1])"
    using imp by (auto intro: filter_cong)
  then have "subseq (filter (keep feats1 feats2 hi) [0..<length feats1])
                    (filter (keep feats1 feats2 lo) [0..<length feats1])"
    by (metis subseq_filter_left)
  then have sub: "subseq ?hi ?lo" unfolding mnn_pairs_alt by (rule subseq_map)
  have z: "zip (map fst ?hi) (map snd ?hi) = ?hi" "zip a0 a1 = ?lo"
    by (simp_all add: a zip_fst_snd)
  from sub have "set ?hi \<subseteq> set ?lo" by (auto dest: list_emb_set)
  moreover from sub have "length ?hi \<le> length ?lo" by (rule list_emb_length)
  ultimately show ?thesis using hi sub z a by simp
qed

theorem threshold_monotone_witness:
  "(-1::real) \<le> 19/20 \<and> match exA exB (-1) = Inr ([0, 1], [1, 0]) \<and>
   match exA exB (19/20) = Inr ([0], [1]) \<and>
   subseq (zip [0::nat] [1::nat]) (zip [0, 1] [1, 0]) \<and>
   set (zip [0::nat] [1::nat]) \<subseteq> set (zip [0, 1] [1, 0]) \<and>
   length [0::nat] \<le> length [0, 1::nat]"
  using threshold_monotone[of "-1" "19/20" exA exB "[0, 1]" "[1, 0]"]
        match_exA_exB match_exA_exB_high
  by simp

subsection \<open>The batched matcher on a singleton batch\<close>

text \<open>
  Claim C3.  On the singleton batch holding one pair of descriptor sets, \<open>batch_match\<close>
  returns exactly the index pairs of \<open>match\<close> on that pair, each tagged with batch index
  0, for every \<open>min_cossim\<close>; it raises exactly when \<open>match\<close> raises.
\<close>

theorem batch_match_singleton:
  "batch_match [feats1] [feats2] mc =
     (case match feats1 feats2 mc of
        Inl e \<Rightarrow> Inl e
      | Inr (idx0, idx1) \<Rightarrow> Inr (map (Pair 0) idx0, map (Pair 0) idx1))"
proof (cases "inner_ok feats1 feats2 \<and> feats1 \<noteq> [] \<and> feats2 \<noteq> []")
  case True
  then have "batch_ok [feats1] [feats2]" by (simp add: batch_ok_def)
  from batch_match_char[OF this] True show ?thesis
    by (simp add: match_char)
next
  case False
  then show ?thesis by (auto simp: batch_match_def match_def)
qed

theorem batch_match_singleton_witness:
  "batch_match [exA] [exB] (19/20) = Inr ([(0, 0)], [(0, 1)])"
  using batch_match_singleton[of exA exB "19/20"] match_exA_exB_high
  by simp

subsection \<open>Refinement\<close>


lemma bind_Inr: "bind m f = Inr r \<longleftrightarrow> (\<exists>x. m = Inr x \<and> f x = Inr r)"
  by (cases m) (simp_all add: bind_def)













lemma row_max_Max: "xs \<noteq> [] \<Longrightarrow> row_max xs = Max (set xs)"
proof -
  assume ne: "xs \<noteq> []"
  have "row_max xs \<in> set xs"
    using max_idx_nth[OF ne] max_idx_bound[OF ne] nth_mem[of "snd (max_idx xs)" xs]
    by (simp add: row_max_def)
  moreover have "\<And>x. x \<in> set xs \<Longrightarrow> x \<le> row_max xs"
    by (simp add: row_max_def max_idx_ge)
  ultimately show ?thesis by (intro Max_eqI[symmetric]) simp_all
qed



















subsection \<open>Index arithmetic of reshape and permute\<close>

lemma ravel_less: "list_all2 (<) js ds \<Longrightarrow> ravel ds js < prod_list ds"
proof (induction ds js rule: ravel.induct)
  case (1 d ds i "is")
  then have i: "i < d" and r: "ravel ds is < prod_list ds" by simp_all
  have "i * prod_list ds + ravel ds is < i * prod_list ds + prod_list ds" using r by simp
  also have "\<dots> = Suc i * prod_list ds" by simp
  also have "\<dots> \<le> d * prod_list ds" using i by (intro mult_le_mono1) simp
  finally show ?case by simp
qed simp_all

lemma unravel_ravel_all: "list_all2 (<) js ds \<Longrightarrow> unravel ds (ravel ds js) = js"
proof (induction ds arbitrary: js)
  case Nil
  then show ?case by simp
next
  case (Cons e es)
  then obtain j js' where js: "js = j # js'" and j: "j < e" and rest: "list_all2 (<) js' es"
    by (auto simp: list_all2_Cons2)
  let ?P = "prod_list es" and ?r = "ravel es js'"
  have r: "?r < ?P" using ravel_less[OF rest] .
  then have d: "(j * ?P + ?r) div ?P = j" and m: "(j * ?P + ?r) mod ?P = ?r" by simp_all
  have "unravel (e # es) (ravel (e # es) (j # js')) = j # unravel es ?r"
    by (simp only: ravel.simps unravel.simps d m)
  then show ?case unfolding js using Cons.IH[OF rest] by simp
qed

lemma unravel_ravel:
  assumes "list_all2 (<) js ds"
  shows "unravel (d # ds) (ravel (d # ds) (i # js)) = i # js"
proof -
  let ?P = "prod_list ds" and ?r = "ravel ds js"
  have r: "?r < ?P" using ravel_less[OF assms] .
  then have d: "(i * ?P + ?r) div ?P = i" and m: "(i * ?P + ?r) mod ?P = ?r" by simp_all
  have "unravel (d # ds) (ravel (d # ds) (i # js)) = i # unravel ds ?r"
    by (simp only: ravel.simps unravel.simps d m)
  then show ?thesis using unravel_ravel_all[OF assms] by simp
qed

lemma unravel_blocks:
  assumes "i < H" "j < W" "p < 8" "q < 8"
  shows "unravel [B, H, 8, W, 8] (ravel [B, 1, H * 8, W * 8] [b, 0, 8 * i + p, 8 * j + q])
           = [b, i, p, j, q]"
proof -
  have e: "ravel [B, 1, H * 8, W * 8] [b, 0, 8 * i + p, 8 * j + q]
          = ravel [B, H, 8, W, 8] [b, i, p, j, q]"
    by (simp add: algebra_simps)
  have u: "unravel [B, H, 8, W, 8] (ravel [B, H, 8, W, 8] [b, i, p, j, q]) = [b, i, p, j, q]"
    by (rule unravel_ravel) (simp add: assms)
  show ?thesis by (simp only: e u)
qed

lemma unravel_channels:
  assumes "i < H" "j < W" "p < 8" "q < 8"
  shows "unravel [B, H, W, 64] (ravel [B, H, W, 8, 8] [b, i, j, p, q]) = [b, i, j, 8 * p + q]"
proof -
  have e: "ravel [B, H, W, 8, 8] [b, i, j, p, q] = ravel [B, H, W, 64] [b, i, j, 8 * p + q]"
    by (simp add: algebra_simps)
  have "8 * p + q < 64" using assms by simp
  then have u: "unravel [B, H, W, 64] (ravel [B, H, W, 64] [b, i, j, 8 * p + q])
                  = [b, i, j, 8 * p + q]"
    by (intro unravel_ravel) (simp add: assms)
  show ?thesis by (simp only: e u)
qed

lemma permute_0231:
  "elem (permute [0, 2, 3, 1] t) [a, b, c, d] = elem t [a, d, b, c]"
  "shape t = [B, C, H, W] \<Longrightarrow> shape (permute [0, 2, 3, 1] t) = [B, H, W, C]"
  by (simp_all add: permute_def position_def upt_conv_Cons)

lemma permute_01324:
  "elem (permute [0, 1, 3, 2, 4] t) [a, b, c, d, e] = elem t [a, b, d, c, e]"
  "shape t = [B, H, W, P, Q] \<Longrightarrow> shape (permute [0, 1, 3, 2, 4] t) = [B, H, P, W, Q]"
  by (simp_all add: permute_def position_def upt_conv_Cons)

lemma reshape_Inr:
  "prod_list new = prod_list (shape t) \<Longrightarrow>
     reshape new t = Inr \<lparr>shape = new, elem = (\<lambda>idx. elem t (unravel (shape t) (ravel new idx)))\<rparr>"
  by (simp add: reshape_def)

lemma get_kpts_heatmap_Inr:
  assumes sh: "shape kpts = [B, 64, H, W]"
  shows "get_kpts_heatmap kpts temp = Inr (heat_of kpts temp B H W)"
proof -
  define scores where "scores = narrow_dim1 64 (softmax_dim1 (scale temp kpts))"
  have ss: "shape scores = [B, 64, H, W]"
    using sh by (simp add: scores_def narrow_dim1_def softmax_dim1_def scale_def)
  define P1 where "P1 = permute [0, 2, 3, 1] scores"
  have sp1: "shape P1 = [B, H, W, 64]" unfolding P1_def using ss by (rule permute_0231(2))
  define r1 where "r1 = \<lparr>shape = [B, H, W, 8, 8],
                          elem = (\<lambda>idx. elem P1 (unravel [B, H, W, 64] (ravel [B, H, W, 8, 8] idx)))\<rparr>"
  have R1: "reshape [B, H, W, 8, 8] P1 = Inr r1"
    using reshape_Inr[of "[B, H, W, 8, 8]" P1] by (simp add: sp1 r1_def)
  define P2 where "P2 = permute [0, 1, 3, 2, 4] r1"
  have sp2: "shape P2 = [B, H, 8, W, 8]"
    unfolding P2_def by (rule permute_01324(2)) (simp add: r1_def)
  have R2: "reshape [B, 1, H * 8, W * 8] P2 =
     Inr \<lparr>shape = [B, 1, H * 8, W * 8],
          elem = (\<lambda>idx. elem P2 (unravel [B, H, 8, W, 8] (ravel [B, 1, H * 8, W * 8] idx)))\<rparr>"
    using reshape_Inr[of "[B, 1, H * 8, W * 8]" P2] by (simp add: sp2)
  have lt: "\<not> length (shape kpts) < 2" using sh by simp
  have "get_kpts_heatmap kpts temp =
          bind (reshape [B, H, W, 8, 8] P1)
            (\<lambda>heatmap. reshape [B, 1, H * 8, W * 8] (permute [0, 1, 3, 2, 4] heatmap))"
    unfolding get_kpts_heatmap_def Let_def scores_def[symmetric] ss P1_def[symmetric]
    by (simp only: lt if_False list.case)
  then have "get_kpts_heatmap kpts temp = Inr \<lparr>shape = [B, 1, H * 8, W * 8],
          elem = (\<lambda>idx. elem P2 (unravel [B, H, 8, W, 8] (ravel [B, 1, H * 8, W * 8] idx)))\<rparr>"
    unfolding R1 bind_def sum.case P2_def[symmetric] R2 .
  then show ?thesis
    unfolding heat_of_def Let_def scores_def[symmetric] P1_def[symmetric] r1_def[symmetric]
      P2_def[symmetric] .
qed

lemma heat_of_shape: "shape (heat_of kpts temp B H W) = [B, 1, H * 8, W * 8]"
  by (simp add: heat_of_def Let_def)

lemma heat_of_layout:
  assumes r: "i < H" "j < W" "p < 8" "q < 8"
  shows "elem (heat_of kpts temp B H W) [b, 0, 8 * i + p, 8 * j + q]
           = elem (softmax_dim1 (scale temp kpts)) [b, 8 * p + q, i, j]"
proof -
  have "elem (heat_of kpts temp B H W) [b, 0, 8 * i + p, 8 * j + q]
      = elem (narrow_dim1 64 (softmax_dim1 (scale temp kpts))) [b, 8 * p + q, i, j]"
    unfolding heat_of_def Let_def
    by (simp only: tensor.select_convs unravel_blocks[OF r] permute_01324(1)
          unravel_channels[OF r] permute_0231(1))
  then show ?thesis by (simp add: narrow_dim1_def)
qed

subsection \<open>Layout and normalisation of the heatmap\<close>

lemma sum_blocks:
  fixes f :: "nat \<Rightarrow> real"
  shows "(\<Sum>p<8. \<Sum>q<8. f (8 * p + q)) = (\<Sum>c<64. f c)"
proof -
  have "(\<Sum>c<8 * 8. f c) = (\<Sum>p<8. sum f {p * 8 ..< p * 8 + 8})"
    by (rule sum.nat_group[symmetric])
  also have "\<dots> = (\<Sum>p<8. \<Sum>q<8. f (8 * p + q))"
  proof (rule sum.cong[OF refl])
    fix p :: nat
    have "sum f {p * 8 ..< p * 8 + 8} = sum f {0 + p * 8 ..< 8 + p * 8}" by (simp add: add.commute)
    also have "\<dots> = (\<Sum>q = 0..<8. f (q + p * 8))" by (rule sum.shift_bounds_nat_ivl)
    also have "\<dots> = (\<Sum>q<8. f (8 * p + q))" by (simp add: atLeast0LessThan algebra_simps)
    finally show "sum f {p * 8 ..< p * 8 + 8} = (\<Sum>q<8. f (8 * p + q))" .
  qed
  finally show ?thesis by simp
qed

lemma softmax_dim1_cell:
  assumes "shape kpts = [B, 64, H, W]"
  shows "elem (softmax_dim1 (scale 1 kpts)) [b, c, i, j] = cell_softmax kpts b i j c"
proof -
  have "sum_list (map (\<lambda>c'. exp (elem kpts [b, c', i, j])) [0..<64])
          = (\<Sum>c'<64. exp (elem kpts [b, c', i, j]))"
    by (simp add: interv_sum_list_conv_sum_set_nat atLeast0LessThan)
  then show ?thesis using assms
    by (simp add: softmax_dim1_def scale_def cell_softmax_def)
qed

lemma cell_softmax_sum: "(\<Sum>c<64. cell_softmax kpts b i j c) = 1"
proof -
  let ?S = "\<Sum>c'<64. exp (elem kpts [b, c', i, j])"
  have "(0::nat) \<in> {..<64}" by simp
  then have "{..<64::nat} \<noteq> {}" by blast
  then have "?S > 0" by (intro sum_pos) simp_all
  then show ?thesis
    unfolding cell_softmax_def sum_divide_distrib[symmetric] by simp
qed

text \<open>
  Claim C4.  For a logit map of shape \<open>[B, 64, H, W]\<close> the decoder returns a heatmap of
  shape \<open>[B, 1, 8H, 8W]\<close> whose pixel \<open>(8i + p, 8j + q)\<close> holds the softmax weight of
  channel \<open>8p + q\<close>, that is of sub-cell \<open>(p, q)\<close>, of coarse cell \<open>(i, j)\<close>; the \<open>8 \<times> 8\<close>
  block of every coarse cell sums to 1.
\<close>

theorem heatmap_decode:
  assumes "shape kpts = [B, 64, H, W]" "b < B" "i < H" "j < W"
  shows "\<exists>hm. get_kpts_heatmap kpts 1 = Inr hm \<and> shape hm = [B, 1, H * 8, W * 8] \<and>
           (\<forall>p<8. \<forall>q<8. elem hm [b, 0, 8 * i + p, 8 * j + q] = cell_softmax kpts b i j (8 * p + q)) \<and>
           (\<Sum>p<8. \<Sum>q<8. elem hm [b, 0, 8 * i + p, 8 * j + q]) = 1"
proof -
  let ?hm = "heat_of kpts 1 B H W"
  have px: "elem ?hm [b, 0, 8 * i + p, 8 * j + q] = cell_softmax kpts b i j (8 * p + q)"
    if "p < 8" "q < 8" for p q
    using heat_of_layout[OF assms(3,4) that] softmax_dim1_cell[OF assms(1)] by simp
  have "(\<Sum>p<8. \<Sum>q<8. elem ?hm [b, 0, 8 * i + p, 8 * j + q])
          = (\<Sum>p<8. \<Sum>q<8. cell_softmax kpts b i j (8 * p + q))"
    by (intro sum.cong refl) (simp add: px)
  also have "\<dots> = 1" by (simp only: sum_blocks cell_softmax_sum)
  finally have s: "(\<Sum>p<8. \<Sum>q<8. elem ?hm [b, 0, 8 * i + p, 8 * j + q]) = 1" .
  show ?thesis
    using get_kpts_heatmap_Inr[OF assms(1), of 1] heat_of_shape[of kpts 1 B H W] px s by blast
qed

lemma exK_sum: "(\<Sum>c'<64. exp (elem exK [0, c', 0, 0])) = 127"
proof -
  have "(\<Sum>c'<64. exp (elem exK [0, c', 0, 0])) = (\<Sum>c'<64::nat. if c' = 9 then 64 else (1::real))"
    by (intro sum.cong refl) (simp add: exK_def)
  also have "\<dots> = (\<Sum>c'<64::nat. 1 + (if c' = 9 then 63 else (0::real)))"
    by (intro sum.cong refl) simp
  also have "\<dots> = 127" by (simp add: sum.distrib)
  finally show ?thesis .
qed

lemma exK_cell: "cell_softmax exK 0 0 0 c = (if c = 9 then 64 / 127 else 1 / 127)"
  unfolding cell_softmax_def exK_sum by (simp add: exK_def)

theorem heatmap_decode_witness:
  "shape exK = [1, 64, 1, 1] \<and> (0::nat) < 1 \<and>
   (\<exists>hm. get_kpts_heatmap exK 1 = Inr hm \<and> shape hm = [1, 1, 8, 8] \<and>
      elem hm [0, 0, 1, 1] = 64 / 127 \<and> elem hm [0, 0, 3, 5] = 1 / 127 \<and>
      (\<Sum>p<8. \<Sum>q<8. elem hm [0, 0, p, q]) = 1)"
proof -
  have sh: "shape exK = [1, 64, 1, 1]" by (simp add: exK_def)
  from heatmap_decode[OF sh, of 0 0 0] obtain hm where
    g: "get_kpts_heatmap exK 1 = Inr hm" and s: "shape hm = [1, 1, 8, 8]"
    and px: "\<And>p q. p < 8 \<Longrightarrow> q < 8 \<Longrightarrow> elem hm [0, 0, p, q] = cell_softmax exK 0 0 0 (8 * p + q)"
    and sm: "(\<Sum>p<8. \<Sum>q<8. elem hm [0, 0, p, q]) = 1"
    by auto
  from px[of 1 1] px[of 3 5] have "elem hm [0, 0, 1, 1] = 64 / 127" "elem hm [0, 0, 3, 5] = 1 / 127"
    by (simp_all add: exK_cell)
  with sh g s sm show ?thesis by auto
qed

subsection \<open>Selection of the best candidates\<close>

lemma preprocess_ratio:
  assumes "preprocess_tensor self x = Inr (x', rh1, rw1)"
  shows "1 \<le> rh1" "1 \<le> rw1"
proof -
  let ?H = "shape x ! (length (shape x) - 2)" and ?W = "shape x ! (length (shape x) - 1)"
  from assms have h: "(?H div 32) * 32 \<noteq> 0" and w: "(?W div 32) * 32 \<noteq> 0"
    and rh: "rh1 = real ?H / real ((?H div 32) * 32)"
    and rw: "rw1 = real ?W / real ((?W div 32) * 32)"
    by (auto simp: preprocess_tensor_def Let_def split: if_splits)
  have "(?H div 32) * 32 \<le> ?H" by simp
  then have "real ((?H div 32) * 32) \<le> real ?H" by (rule of_nat_mono)
  moreover from h have "0 < real ((?H div 32) * 32)" by simp
  ultimately show "1 \<le> rh1" unfolding rh by (simp add: le_divide_eq)
  have "(?W div 32) * 32 \<le> ?W" by simp
  then have "real ((?W div 32) * 32) \<le> real ?W" by (rule of_nat_mono)
  moreover from w have "0 < real ((?W div 32) * 32)" by simp
  ultimately show "1 \<le> rw1" unfolding rw by (simp add: le_divide_eq)
qed

lemma detectAndCompute_Inr:
  assumes "detectAndCompute self x = Inr outs"
  obtains x' rh1 rw1 B C H W M1 K1 H1 K1h mkpts where
    "preprocess_tensor self x = Inr (x', rh1, rw1)" "shape x' = [B, C, H, W]"
    "net self x' = (M1, K1, H1)" "get_kpts_heatmap K1 1 = Inr K1h"
    "NMS K1h (5 / 100) 5 = Inr mkpts" "B \<le> length mkpts"
    "outs = map (\<lambda>b. detect_image self (normalize_dim1 M1) K1h H1 H W rh1 rw1 b (mkpts ! b)) [0..<B]"
proof -
  from assms obtain x' rh1 rw1 where p: "preprocess_tensor self x = Inr (x', rh1, rw1)"
    and r: "(case shape x' of
         [B, C, H, W] \<Rightarrow>
           (let (M1, K1, H1) = net self x';
                M1' = normalize_dim1 M1
            in bind (get_kpts_heatmap K1 1) (\<lambda>K1h.
               bind (NMS K1h (5 / 100) 5) (\<lambda>mkpts.
                 if length mkpts < B then Inl IndexError
                 else Inr (map (\<lambda>b. detect_image self M1' K1h H1 H W rh1 rw1 b (mkpts ! b))
                             [0..<B]))))
       | _ \<Rightarrow> Inl ValueError) = Inr outs"
    unfolding detectAndCompute_def bind_Inr by auto
  from r obtain B C H W where s: "shape x' = [B, C, H, W]"
    by (auto split: list.splits)
  obtain M1 K1 H1 where n: "net self x' = (M1, K1, H1)" by (cases "net self x'")
  from r s n obtain K1h mkpts where "get_kpts_heatmap K1 1 = Inr K1h"
    "NMS K1h (5 / 100) 5 = Inr mkpts" "B \<le> length mkpts"
    "outs = map (\<lambda>b. detect_image self (normalize_dim1 M1) K1h H1 H W rh1 rw1 b (mkpts ! b)) [0..<B]"
    by (auto simp: bind_Inr Let_def split: if_splits)
  with p s n that show thesis by blast
qed

lemma detect_image_pts:
  "pts (detect_image self M1 K1h H1 H W rh1 rw1 b kps) =
     map (\<lambda>((x, y), s). (real x * rw1, real y * rh1, s))
       (filter (\<lambda>(kp, s). 0 < s)
          (top_candidates (top_k self) kps (candidate_scores self K1h H1 H W b kps)))"
  by (simp add: detect_image_def Let_def masked_map)

lemma detect_image_feats:
  "feats (detect_image self M1 K1h H1 H W rh1 rw1 b kps) =
     map (\<lambda>(kp, s). l2_normalize (bicubic self M1 b kp H W))
       (filter (\<lambda>(kp, s). 0 < s)
          (top_candidates (top_k self) kps (candidate_scores self K1h H1 H W b kps)))"
  by (simp add: detect_image_def Let_def masked_map)

lemma py_prefix_zip:
  "length xs = length ys \<Longrightarrow> zip (py_prefix k xs) (py_prefix k ys) = py_prefix k (zip xs ys)"
  by (simp add: py_prefix_def take_zip)

lemma top_candidates_alt:
  assumes "length kps = length scores"
  shows "top_candidates k kps scores =
           py_prefix k (map (\<lambda>i. (kps ! i, scores ! i)) (argsort_desc scores))"
  by (simp add: top_candidates_def Let_def py_prefix_zip zip_map_map zip_same_conv_map comp_def)


lemma candidate_scores_length: "length (candidate_scores self K1h H1 H W b kps) = length kps"
  by (simp add: candidate_scores_def)

lemma candidate_scores_nth:
  "n < length kps \<Longrightarrow>
     candidate_scores self K1h H1 H W b kps ! n =
       (if kps ! n = (0, 0) then - 1
        else nearest self K1h b (kps ! n) H W * bilinear self H1 b (kps ! n) H W)"
  by (simp add: candidate_scores_def)


lemma top_candidates_subset:
  assumes "length kps = length scores" "(kp, s) \<in> set (top_candidates k kps scores)"
  shows "\<exists>n < length kps. kp = kps ! n \<and> s = scores ! n"
proof -
  from assms(2) have "(kp, s) \<in> set (map (\<lambda>i. (kps ! i, scores ! i)) (argsort_desc scores))"
    unfolding top_candidates_alt[OF assms(1)] by (auto simp: py_prefix_def dest: in_set_takeD split: if_splits)
  then obtain i where "i \<in> set (argsort_desc scores)" "kp = kps ! i" "s = scores ! i" by auto
  then show ?thesis using assms(1) by (auto simp: argsort_desc_def)
qed




subsection \<open>Non-maximum suppression on a peaked heatmap\<close>

lemma max_pool2d_top:
  assumes sh: "shape x = [B, C, H, W]" and r: "r < H" and c: "col < W"
    and le: "\<And>r' c'. r' < H \<Longrightarrow> c' < W \<Longrightarrow> elem x [b, ch, r', c'] \<le> M"
    and top: "elem x [b, ch, r, col] = M"
  shows "max_pool2d pad x b ch r col = M"
proof -
  let ?xs = "concat (map (\<lambda>r'. map (\<lambda>c'. elem x [b, ch, r', c']) (window pad W col)) (window pad H r))"
  have rw: "r \<in> set (window pad H r)" using r by (auto simp: window_def)
  have cw: "col \<in> set (window pad W col)" using c by (auto simp: window_def)
  have mem: "M \<in> set ?xs" using rw cw top by force
  then have ne: "?xs \<noteq> []" by auto
  have ub: "\<And>v. v \<in> set ?xs \<Longrightarrow> v \<le> M" using le by (auto simp: window_def)
  have "Max (set ?xs) = M" using mem ub by (intro Max_eqI) auto
  then show ?thesis using sh row_max_Max[OF ne] by (simp add: max_pool2d_def Let_def)
qed

lemma max_pool2d_ge:
  assumes sh: "shape x = [B, C, H, W]" and r: "r < H" and c: "col < W"
  shows "elem x [b, ch, r, col] \<le> max_pool2d pad x b ch r col"
proof -
  let ?xs = "concat (map (\<lambda>r'. map (\<lambda>c'. elem x [b, ch, r', c']) (window pad W col)) (window pad H r))"
  have rw: "r \<in> set (window pad H r)" using r by (auto simp: window_def)
  have cw: "col \<in> set (window pad W col)" using c by (auto simp: window_def)
  have mem: "elem x [b, ch, r, col] \<in> set ?xs" using rw cw by force
  then have ne: "?xs \<noteq> []" by auto
  have "elem x [b, ch, r, col] \<le> Max (set ?xs)" using mem by (intro Max_ge) auto
  then show ?thesis using sh row_max_Max[OF ne] by (simp add: max_pool2d_def Let_def)
qed

lemma nonzero_xy_cong:
  assumes "\<And>c r col. c < C \<Longrightarrow> r < H \<Longrightarrow> col < W \<Longrightarrow> P c r col = Q c r col"
  shows "nonzero_xy C H W P = nonzero_xy C H W Q"
  unfolding nonzero_xy_def
  by (intro arg_cong[where f = concat] map_cong refl filter_cong) (simp_all add: assms)

lemma exPeak_less: "exPeak b i j = Some c \<Longrightarrow> c < 64"
  by (auto simp: exPeak_def split: if_splits)

lemma one_hot_sum: "c < 64 \<Longrightarrow> (\<Sum>c'<64::nat. if c = c' then 64 else (1::real)) = 127"
proof -
  assume c: "c < 64"
  have "(\<Sum>c'<64::nat. if c = c' then 64 else (1::real)) = (\<Sum>c'<64::nat. 1 + (if c' = c then 63 else (0::real)))"
    by (intro sum.cong refl) simp
  also have "\<dots> = 127" using c by (simp add: sum.distrib)
  finally show ?thesis .
qed

lemma exK1_sum:
  "(\<Sum>c'<64. exp (elem exK1 [b, c', i, j])) = (case exPeak b i j of None \<Rightarrow> 64 | Some c \<Rightarrow> 127)"
proof (cases "exPeak b i j")
  case None
  then show ?thesis by (simp add: exK1_def)
next
  case (Some c)
  have "(\<Sum>c'<64. exp (elem exK1 [b, c', i, j])) = (\<Sum>c'<64::nat. if c = c' then 64 else (1::real))"
    by (intro sum.cong refl) (simp add: exK1_def Some)
  then show ?thesis using one_hot_sum[OF exPeak_less[OF Some]] Some by simp
qed

lemma exK1_cell:
  "cell_softmax exK1 b i j c =
     (case exPeak b i j of None \<Rightarrow> 1 / 64 | Some c' \<Rightarrow> if c' = c then 64 / 127 else 1 / 127)"
  unfolding cell_softmax_def exK1_sum by (simp add: exK1_def split: option.splits)

lemma exK1_heat:
  assumes "r < 32" "col < 32"
  shows "elem (heat_of exK1 1 2 4 4) [b, 0, r, col] =
     (case exPeak b (r div 8) (col div 8) of None \<Rightarrow> 1 / 64
      | Some c \<Rightarrow> if c = 8 * (r mod 8) + col mod 8 then 64 / 127 else 1 / 127)"
proof -
  have sh: "shape exK1 = [2, 64, 4, 4]" by (simp add: exK1_def)
  have i: "r div 8 < 4" "col div 8 < 4" "r mod 8 < 8" "col mod 8 < 8" using assms by auto
  have "elem (heat_of exK1 1 2 4 4) [b, 0, 8 * (r div 8) + r mod 8, 8 * (col div 8) + col mod 8]
          = cell_softmax exK1 b (r div 8) (col div 8) (8 * (r mod 8) + col mod 8)"
    using heat_of_layout[OF i, of exK1 1 2 b] softmax_dim1_cell[OF sh] by simp
  then show ?thesis by (simp add: exK1_cell)
qed

lemma exHeat_le: "r < 32 \<Longrightarrow> col < 32 \<Longrightarrow> elem exHeat [b, 0, r, col] \<le> 64 / 127"
  unfolding exHeat_def by (simp add: exK1_heat split: option.splits)

lemma exHeat_pos:
  assumes "r < 32" "col < 32"
  shows "(elem exHeat [b, 0, r, col] = max_pool2d 2 exHeat b 0 r col \<and> elem exHeat [b, 0, r, col] > 5 / 100)
           \<longleftrightarrow> exPeak b (r div 8) (col div 8) = Some (8 * (r mod 8) + col mod 8)"
proof (cases "exPeak b (r div 8) (col div 8) = Some (8 * (r mod 8) + col mod 8)")
  case True
  have sh: "shape exHeat = [2, 1, 32, 32]" by (simp add: exHeat_def heat_of_shape)
  have v: "elem exHeat [b, 0, r, col] = 64 / 127"
    unfolding exHeat_def by (simp add: exK1_heat[OF assms] True)
  have "max_pool2d 2 exHeat b 0 r col = 64 / 127"
    using sh assms exHeat_le v by (rule max_pool2d_top)
  with v True show ?thesis by simp
next
  case False
  then have "elem exHeat [b, 0, r, col] \<le> 1 / 64"
    unfolding exHeat_def by (simp add: exK1_heat[OF assms] split: option.splits)
  then have "\<not> elem exHeat [b, 0, r, col] > 5 / 100" by simp
  with False show ?thesis by simp
qed

lemma exHeat_nonzero:
  "nonzero_xy 1 32 32 (\<lambda>c r col. elem exHeat [b, c, r, col] = max_pool2d 2 exHeat b c r col
                                    \<and> elem exHeat [b, c, r, col] > 5 / 100)
   = nonzero_xy 1 32 32 (\<lambda>c r col. exPeak b (r div 8) (col div 8) = Some (8 * (r mod 8) + col mod 8))"
proof (rule nonzero_xy_cong)
  fix c r col :: nat
  assume "c < 1" "r < 32" "col < 32"
  then show "(elem exHeat [b, c, r, col] = max_pool2d 2 exHeat b c r col
               \<and> elem exHeat [b, c, r, col] > 5 / 100)
             = (exPeak b (r div 8) (col div 8) = Some (8 * (r mod 8) + col mod 8))"
    using exHeat_pos[of r col b] by (simp only: less_one)
qed

lemma ex_nonzero0:
  "nonzero_xy 1 32 32 (\<lambda>c r col. exPeak 0 (r div 8) (col div 8) = Some (8 * (r mod 8) + col mod 8))
     = [(0, 0), (9, 1), (20, 10), (5, 27)]"
  by (simp add: nonzero_xy_def exPeak_def upt_conv_Cons)

lemma ex_nonzero1:
  "nonzero_xy 1 32 32 (\<lambda>c r col. exPeak 1 (r div 8) (col div 8) = Some (8 * (r mod 8) + col mod 8))
     = [(12, 3)]"
  by (simp add: nonzero_xy_def exPeak_def upt_conv_Cons)

lemma NMS_exHeat:
  "NMS exHeat (5 / 100) 5 = Inr [[(0, 0), (9, 1), (20, 10), (5, 27)], [(12, 3), (0, 0), (0, 0), (0, 0)]]"
proof -
  have sh: "shape exHeat = [2, 1, 32, 32]" by (simp add: exHeat_def heat_of_shape)
  have pad: "(5::nat) div 2 = 2" by simp
  have two: "[0..<2] = [0, 1::nat]" by (simp add: upt_conv_Cons)
  have "NMS exHeat (5 / 100) 5 =
          (let pos_batched = map (\<lambda>b. nonzero_xy 1 32 32 (\<lambda>c r col.
                 elem exHeat [b, c, r, col] = max_pool2d 2 exHeat b c r col
                 \<and> elem exHeat [b, c, r, col] > 5 / 100)) [0..<2]
           in if pos_batched = [] then Inl ValueError
              else let pad_val = foldr max (map length pos_batched) 0
                   in Inr (map (pad_to pad_val) pos_batched))"
    unfolding NMS_def sh list.case pad by (simp add: Let_def)
  also have "\<dots> =
          (let pos_batched = [[(0, 0), (9, 1), (20, 10), (5, 27)], [(12, 3)]]
           in if pos_batched = [] then Inl ValueError
              else let pad_val = foldr max (map length pos_batched) 0
                   in Inr (map (pad_to pad_val) pos_batched))"
    unfolding exHeat_nonzero two by (simp only: list.map ex_nonzero0 ex_nonzero1)
  also have "\<dots> = Inr [[(0, 0), (9, 1), (20, 10), (5, 27)], [(12, 3), (0, 0), (0, 0), (0, 0)]]"
    by (simp add: pad_to_def Let_def)
  finally show ?thesis .
qed

subsection \<open>The detector on the example batch\<close>

lemma sqrt_25: "sqrt 25 = 5"
proof -
  have "sqrt ((5::real)\<^sup>2) = 5" by simp
  then show ?thesis by simp
qed

lemma exM1_normalize:
  "elem (normalize_dim1 exM1) [b, c, i, j] = (if even (j + c) then 3 / 5 else 4 / 5)"
  by (cases "even j") (simp_all add: normalize_dim1_def exM1_def upt_conv_Cons sqrt_25)

lemma l2_normalize_34: "l2_normalize [3 / 5, 4 / 5] = [3 / 5, 4 / 5]"
proof -
  have "(3 / 5)\<^sup>2 + (4 / 5)\<^sup>2 = (1::real)" by (simp add: power2_eq_square)
  then show ?thesis by (simp add: l2_normalize_def)
qed

lemma l2_normalize_43: "l2_normalize [4 / 5, 3 / 5] = [4 / 5, 3 / 5]"
proof -
  have "(4 / 5)\<^sup>2 + (3 / 5)\<^sup>2 = (1::real)" by (simp add: power2_eq_square)
  then show ?thesis by (simp add: l2_normalize_def)
qed

lemma ex_scores0:
  "candidate_scores (XFeat_init exParts k) exHeat exH1 32 32 0 [(0, 0), (9, 1), (20, 10), (5, 27)]
     = [- 1, 32 / 127, 64 / 127, 0]"
  by (simp add: candidate_scores_def XFeat_init_def exParts_def exHeat_def exK1_heat exPeak_def exH1_def)

lemma ex_scores1:
  "candidate_scores (XFeat_init exParts k) exHeat exH1 32 32 (Suc 0) [(12, 3), (0, 0), (0, 0), (0, 0)]
     = [64 / 127, - 1, - 1, - 1]"
  by (simp add: candidate_scores_def XFeat_init_def exParts_def exHeat_def exK1_heat exPeak_def exH1_def)

lemma ex_sel0:
  "top_candidates 4096 [(0, 0), (9, 1), (20, 10), (5, 27)] [- 1, 32 / 127, 64 / 127, 0]
     = [((20, 10), 64 / 127), ((9, 1), 32 / 127), ((5, 27), 0), ((0, 0), - 1)]"
  by (simp add: top_candidates_def argsort_desc_def py_prefix_def upt_conv_Cons Let_def)


lemma ex_sel1:
  "top_candidates 4096 [(12, 3), (0, 0), (0, 0), (0, 0)] [64 / 127, - 1, - 1, - 1]
     = [((12, 3), 64 / 127), ((0, 0), - 1), ((0, 0), - 1), ((0, 0), - 1)]"
  by (simp add: top_candidates_def argsort_desc_def py_prefix_def upt_conv_Cons Let_def)


lemma ex_preprocess:
  "preprocess_tensor (XFeat_init exParts k) exImg
     = Inr (\<lparr>shape = [2, 1, 32, 32], elem = (\<lambda>idx. 0)\<rparr>, 5 / 4, 3 / 2)"
  by (simp add: preprocess_tensor_def XFeat_init_def exParts_def exImg_def Let_def)

lemma ex_net: "net (XFeat_init exParts k) t = (exM1, exK1, exH1)"
  by (simp add: XFeat_init_def exParts_def)

lemma ex_heatmap: "get_kpts_heatmap exK1 1 = Inr exHeat"
  unfolding exHeat_def by (rule get_kpts_heatmap_Inr) (simp add: exK1_def)

lemma ex_bicubic:
  "bicubic (XFeat_init exParts k) (normalize_dim1 exM1) b (x, y) H W =
     [if even (x div 8) then 3 / 5 else 4 / 5, if even (x div 8) then 4 / 5 else 3 / 5]"
  by (simp add: XFeat_init_def exParts_def exM1_normalize)

lemma ex_top_k: "top_k (XFeat_init exParts None) = 4096" "top_k (XFeat_init exParts (Some k)) = k"
  by (simp_all add: XFeat_init_def)

lemma ex_image0:
  "detect_image (XFeat_init exParts None) (normalize_dim1 exM1) exHeat exH1 32 32 (5 / 4) (3 / 2) 0
     [(0, 0), (9, 1), (20, 10), (5, 27)]
   = \<lparr>pts = [(30, 25 / 2, 64 / 127), (27 / 2, 5 / 4, 32 / 127)],
      feats = [[3 / 5, 4 / 5], [4 / 5, 3 / 5]]\<rparr>"
  unfolding detect_image_def Let_def ex_scores0 ex_top_k ex_sel0
  by (simp add: ex_bicubic masked_def l2_normalize_34 l2_normalize_43)

lemma ex_image1:
  "detect_image (XFeat_init exParts None) (normalize_dim1 exM1) exHeat exH1 32 32 (5 / 4) (3 / 2) (Suc 0)
     [(12, 3), (0, 0), (0, 0), (0, 0)]
   = \<lparr>pts = [(18, 15 / 4, 64 / 127)], feats = [[4 / 5, 3 / 5]]\<rparr>"
  unfolding detect_image_def Let_def ex_scores1 ex_top_k ex_sel1
  by (simp add: ex_bicubic masked_def l2_normalize_34 l2_normalize_43)



lemma ex_detect_unfold:
  "detectAndCompute (XFeat_init exParts k) exImg =
     Inr [detect_image (XFeat_init exParts k) (normalize_dim1 exM1) exHeat exH1 32 32 (5 / 4) (3 / 2) 0
            [(0, 0), (9, 1), (20, 10), (5, 27)],
          detect_image (XFeat_init exParts k) (normalize_dim1 exM1) exHeat exH1 32 32 (5 / 4) (3 / 2) (Suc 0)
            [(12, 3), (0, 0), (0, 0), (0, 0)]]"
  unfolding detectAndCompute_def ex_preprocess
  by (simp add: bind_def ex_net ex_heatmap NMS_exHeat[simplified] upt_conv_Cons)

lemma ex_detect:
  "detectAndCompute (XFeat_init exParts None) exImg =
     Inr [\<lparr>pts = [(30, 25 / 2, 64 / 127), (27 / 2, 5 / 4, 32 / 127)],
           feats = [[3 / 5, 4 / 5], [4 / 5, 3 / 5]]\<rparr>,
          \<lparr>pts = [(18, 15 / 4, 64 / 127)], feats = [[4 / 5, 3 / 5]]\<rparr>]"
  unfolding ex_detect_unfold ex_image0 ex_image1 ..


subsection \<open>Sentinel scores and the positivity filter\<close>

text \<open>
  Claim C5.  Whenever \<open>detectAndCompute\<close> returns, the score of candidate \<open>n\<close> of image \<open>b\<close>
  before sorting is \<open>-1\<close> if its coordinate pair is \<open>(0, 0)\<close> and the product of the sampled
  heatmap and reliability values otherwise; the selected entries are candidates paired
  with their scores; and the returned keypoints and descriptors of image \<open>b\<close> are exactly
  the selected entries whose score is strictly positive, in their order, the keypoints
  rescaled to the input image.
\<close>

theorem detect_sentinel_filter:
  assumes "detectAndCompute self x = Inr outs"
  shows "\<exists>x' rh1 rw1 B C H W M1 K1 H1 K1h mkpts.
     preprocess_tensor self x = Inr (x', rh1, rw1) \<and> shape x' = [B, C, H, W] \<and>
     net self x' = (M1, K1, H1) \<and> get_kpts_heatmap K1 1 = Inr K1h \<and>
     NMS K1h (5 / 100) 5 = Inr mkpts \<and> length outs = B \<and>
     (\<forall>b<B. \<exists>scores sel.
        scores = candidate_scores self K1h H1 H W b (mkpts ! b) \<and>
        length scores = length (mkpts ! b) \<and>
        (\<forall>n<length (mkpts ! b).
           scores ! n = (if mkpts ! b ! n = (0, 0) then - 1
                         else nearest self K1h b (mkpts ! b ! n) H W
                              * bilinear self H1 b (mkpts ! b ! n) H W)) \<and>
        sel = top_candidates (top_k self) (mkpts ! b) scores \<and>
        (\<forall>e\<in>set sel. \<exists>n<length (mkpts ! b). e = (mkpts ! b ! n, scores ! n)) \<and>
        pts (outs ! b) = map (\<lambda>((x, y), s). (real x * rw1, real y * rh1, s))
                           (filter (\<lambda>(kp, s). 0 < s) sel) \<and>
        feats (outs ! b) = map (\<lambda>(kp, s). l2_normalize (bicubic self (normalize_dim1 M1) b kp H W))
                             (filter (\<lambda>(kp, s). 0 < s) sel))"
proof -
  from assms obtain x' rh1 rw1 B C H W M1 K1 H1 K1h mkpts where
    p: "preprocess_tensor self x = Inr (x', rh1, rw1)" and s: "shape x' = [B, C, H, W]"
    and n: "net self x' = (M1, K1, H1)" and h: "get_kpts_heatmap K1 1 = Inr K1h"
    and m: "NMS K1h (5 / 100) 5 = Inr mkpts"
    and o: "outs = map (\<lambda>b. detect_image self (normalize_dim1 M1) K1h H1 H W rh1 rw1 b (mkpts ! b)) [0..<B]"
    by (rule detectAndCompute_Inr)
  have len: "length outs = B" by (simp add: o)
  have "\<exists>scores sel.
        scores = candidate_scores self K1h H1 H W b (mkpts ! b) \<and>
        length scores = length (mkpts ! b) \<and>
        (\<forall>n<length (mkpts ! b).
           scores ! n = (if mkpts ! b ! n = (0, 0) then - 1
                         else nearest self K1h b (mkpts ! b ! n) H W
                              * bilinear self H1 b (mkpts ! b ! n) H W)) \<and>
        sel = top_candidates (top_k self) (mkpts ! b) scores \<and>
        (\<forall>e\<in>set sel. \<exists>n<length (mkpts ! b). e = (mkpts ! b ! n, scores ! n)) \<and>
        pts (outs ! b) = map (\<lambda>((x, y), s). (real x * rw1, real y * rh1, s))
                           (filter (\<lambda>(kp, s). 0 < s) sel) \<and>
        feats (outs ! b) = map (\<lambda>(kp, s). l2_normalize (bicubic self (normalize_dim1 M1) b kp H W))
                             (filter (\<lambda>(kp, s). 0 < s) sel)" if b: "b < B" for b
  proof -
    let ?kps = "mkpts ! b"
    let ?sc = "candidate_scores self K1h H1 H W b ?kps"
    let ?sel = "top_candidates (top_k self) ?kps ?sc"
    have l: "length ?kps = length ?sc" by (simp add: candidate_scores_length)
    have ob: "outs ! b = detect_image self (normalize_dim1 M1) K1h H1 H W rh1 rw1 b ?kps"
      using b by (simp add: o)
    have sub: "\<forall>e\<in>set ?sel. \<exists>n<length ?kps. e = (?kps ! n, ?sc ! n)"
    proof
      fix e assume e: "e \<in> set ?sel"
      obtain kp s where ks: "e = (kp, s)" by (cases e)
      from top_candidates_subset[OF l e[unfolded ks]] show "\<exists>n<length ?kps. e = (?kps ! n, ?sc ! n)"
        unfolding ks by auto
    qed
    have nth: "\<forall>n<length ?kps. ?sc ! n = (if ?kps ! n = (0, 0) then - 1
                         else nearest self K1h b (?kps ! n) H W * bilinear self H1 b (?kps ! n) H W)"
      by (simp add: candidate_scores_nth)
    show ?thesis
      using l sub nth unfolding ob detect_image_pts detect_image_feats by (intro exI conjI) simp_all
  qed
  with p s n h m len show ?thesis by blast
qed

theorem detect_sentinel_filter_witness:
  "detectAndCompute (XFeat_init exParts None) exImg =
     Inr [\<lparr>pts = [(30, 25 / 2, 64 / 127), (27 / 2, 5 / 4, 32 / 127)],
           feats = [[3 / 5, 4 / 5], [4 / 5, 3 / 5]]\<rparr>,
          \<lparr>pts = [(18, 15 / 4, 64 / 127)], feats = [[4 / 5, 3 / 5]]\<rparr>] \<and>
   get_kpts_heatmap exK1 1 = Inr exHeat \<and>
   NMS exHeat (5 / 100) 5 = Inr [[(0, 0), (9, 1), (20, 10), (5, 27)], [(12, 3), (0, 0), (0, 0), (0, 0)]] \<and>
   candidate_scores (XFeat_init exParts None) exHeat exH1 32 32 0 [(0, 0), (9, 1), (20, 10), (5, 27)]
     = [- 1, 32 / 127, 64 / 127, 0] \<and>
   candidate_scores (XFeat_init exParts None) exHeat exH1 32 32 1 [(12, 3), (0, 0), (0, 0), (0, 0)]
     = [64 / 127, - 1, - 1, - 1] \<and>
   top_candidates 4096 [(0, 0), (9, 1), (20, 10), (5, 27)] [- 1, 32 / 127, 64 / 127, 0]
     = [((20, 10), 64 / 127), ((9, 1), 32 / 127), ((5, 27), 0), ((0, 0), - 1)] \<and>
   top_candidates 4096 [(12, 3), (0, 0), (0, 0), (0, 0)] [64 / 127, - 1, - 1, - 1]
     = [((12, 3), 64 / 127), ((0, 0), - 1), ((0, 0), - 1), ((0, 0), - 1)]"
  using detect_sentinel_filter[OF ex_detect] ex_detect ex_heatmap NMS_exHeat
    ex_scores0[of None] ex_scores1[of None] ex_sel0 ex_sel1
  by simp

subsection \<open>The number of returned features\<close>





subsection \<open>No keypoint at the origin\<close>

text \<open>
  Claim C9.  No keypoint returned by \<open>detectAndCompute\<close> has coordinates \<open>(0, 0)\<close>, and
  every returned score is positive: a candidate at the origin pixel, detected or padded,
  has score \<open>-1\<close> whatever the heatmap and the reliability map hold there.
\<close>

theorem detect_no_origin:
  assumes "detectAndCompute self x = Inr outs" "b < length outs" "(px, py, s) \<in> set (pts (outs ! b))"
  shows "(px, py) \<noteq> (0, 0) \<and> 0 < s \<and>
         (\<forall>K1h H1 H W b' kps n. n < length kps \<and> kps ! n = (0, 0) \<longrightarrow>
            candidate_scores self K1h H1 H W b' kps ! n = - 1)"
proof -
  from assms(1) obtain x' rh1 rw1 B C H W M1 K1 H1 K1h mkpts where
    p: "preprocess_tensor self x = Inr (x', rh1, rw1)"
    and o: "outs = map (\<lambda>b. detect_image self (normalize_dim1 M1) K1h H1 H W rh1 rw1 b (mkpts ! b)) [0..<B]"
    by (rule detectAndCompute_Inr)
  let ?kps = "mkpts ! b"
  let ?sc = "candidate_scores self K1h H1 H W b ?kps"
  let ?sel = "top_candidates (top_k self) ?kps ?sc"
  have l: "length ?kps = length ?sc" by (simp add: candidate_scores_length)
  have ob: "outs ! b = detect_image self (normalize_dim1 M1) K1h H1 H W rh1 rw1 b ?kps"
    using assms(2) by (simp add: o)
  from assms(3) obtain kx ky where e: "((kx, ky), s) \<in> set ?sel" and pos: "0 < s"
    and px: "px = real kx * rw1" and py: "py = real ky * rh1"
    unfolding ob detect_image_pts by auto
  from top_candidates_subset[OF l e] obtain n where n: "n < length ?kps"
    "(kx, ky) = ?kps ! n" "s = ?sc ! n" by auto
  from n pos have "?kps ! n \<noteq> (0, 0)" by (auto simp: candidate_scores_nth split: if_splits)
  with n(2) have "(kx, ky) \<noteq> (0, 0)" by simp
  then have k: "kx \<noteq> 0 \<or> ky \<noteq> 0" by simp
  from preprocess_ratio[OF p] have r: "0 < rh1" "0 < rw1" by simp_all
  from k r px py have "(px, py) \<noteq> (0, 0)" by auto
  moreover have "\<forall>K1h H1 H W b' kps n. n < length kps \<and> kps ! n = (0, 0) \<longrightarrow>
            candidate_scores self K1h H1 H W b' kps ! n = - 1"
    by (simp add: candidate_scores_nth)
  ultimately show ?thesis using pos by blast
qed

theorem detect_no_origin_witness:
  "detectAndCompute (XFeat_init exParts None) exImg =
     Inr [\<lparr>pts = [(30, 25 / 2, 64 / 127), (27 / 2, 5 / 4, 32 / 127)],
           feats = [[3 / 5, 4 / 5], [4 / 5, 3 / 5]]\<rparr>,
          \<lparr>pts = [(18, 15 / 4, 64 / 127)], feats = [[4 / 5, 3 / 5]]\<rparr>] \<and>
   elem exHeat [0, 0, 0, 0] = 64 / 127 \<and>
   bilinear (XFeat_init exParts None) exH1 0 (0, 0) 32 32 = 1 \<and>
   NMS exHeat (5 / 100) 5 = Inr [[(0, 0), (9, 1), (20, 10), (5, 27)], [(12, 3), (0, 0), (0, 0), (0, 0)]] \<and>
   candidate_scores (XFeat_init exParts None) exHeat exH1 32 32 0 [(0, 0), (9, 1), (20, 10), (5, 27)] ! 0
     = - 1 \<and>
   (30, 25 / 2) \<noteq> (0 :: real, 0 :: real) \<and> (0 :: real) < 64 / 127"
proof -
  have h: "elem exHeat [0, 0, 0, 0] = 64 / 127"
    unfolding exHeat_def by (simp add: exK1_heat exPeak_def)
  have r: "bilinear (XFeat_init exParts None) exH1 0 (0, 0) 32 32 = 1"
    by (simp add: XFeat_init_def exParts_def exH1_def)
  have m: "(30, 25 / 2, 64 / 127) \<in>
       set (pts ([\<lparr>pts = [(30, 25 / 2, 64 / 127), (27 / 2, 5 / 4, 32 / 127)],
                    feats = [[3 / 5, 4 / 5], [4 / 5, 3 / 5]]\<rparr>,
                  \<lparr>pts = [(18, 15 / 4, 64 / 127)], feats = [[4 / 5, 3 / 5]]\<rparr>] ! 0))"
    by simp
  from detect_no_origin[OF ex_detect _ m] h r ex_detect NMS_exHeat show ?thesis
    by (simp add: ex_scores0)
qed

end
